theory Spec2Isabelle
  imports Complex_Main "HOL-Library.Sublist"
begin

section \<open>JavaScript values used by upc-a-renderer.js\<close>

text \<open>
  A JavaScript string is modelled as a \<open>string\<close> (a list of characters). The only
  property of a character the program looks at is whether it is one of the ten ASCII
  digits, which is what the regular expression \<open>\D\<close> tests.

  A JavaScript number that holds a digit, a sum or a check digit is a \<open>nat option\<close>:
  \<open>None\<close> is \<open>NaN\<close>, the value \<open>parseInt\<close> returns on anything that is not a digit.
  Indexing a string out of range gives \<open>undefined\<close>, here \<open>None\<close> of \<open>char option\<close>.
\<close>

type_synonym jsnum = "nat option"

definition is_digit :: "char \<Rightarrow> bool" where
  "is_digit c = (48 \<le> (of_char c :: nat) \<and> (of_char c :: nat) \<le> 57)"

text \<open>\<open>String(code).replace(/\D/g, '')\<close>: every character that is not a digit is removed.\<close>

definition stripNonDigits :: "string \<Rightarrow> string" where
  "stripNonDigits s = filter is_digit s"

text \<open>\<open>s[i]\<close>: the character at index \<open>i\<close>, \<open>undefined\<close> out of range.\<close>

definition char_at :: "string \<Rightarrow> nat \<Rightarrow> char option" where
  "char_at s i = (if i < length s then Some (s ! i) else None)"

text \<open>\<open>parseInt\<close> of a one-character string or of \<open>undefined\<close>.\<close>

fun parseInt :: "char option \<Rightarrow> jsnum" where
  "parseInt None = None"
| "parseInt (Some c) = (if is_digit c then Some (of_char c - 48) else None)"

text \<open>Addition and multiplication of numbers: \<open>NaN\<close> is absorbing.\<close>

fun num_add :: "jsnum \<Rightarrow> jsnum \<Rightarrow> jsnum" where
  "num_add (Some a) (Some b) = Some (a + b)"
| "num_add _ _ = None"

fun num_mul :: "jsnum \<Rightarrow> jsnum \<Rightarrow> jsnum" where
  "num_mul (Some a) (Some b) = Some (a * b)"
| "num_mul _ _ = None"

text \<open>\<open>a !== b\<close> on numbers: \<open>NaN\<close> differs from everything, itself included.\<close>

fun strict_ne :: "jsnum \<Rightarrow> jsnum \<Rightarrow> bool" where
  "strict_ne (Some a) (Some b) = (a \<noteq> b)"
| "strict_ne _ _ = True"

text \<open>The decimal text of a number, as string concatenation and template literals produce it.\<close>

definition digit_char :: "nat \<Rightarrow> char" where
  "digit_char d = char_of (48 + d)"

fun string_of_nat :: "nat \<Rightarrow> string" where
  "string_of_nat n =
     (if 10 \<le> n then string_of_nat (n div 10) @ [digit_char (n mod 10)]
      else [digit_char n])"

declare string_of_nat.simps [simp del]

fun num_to_string :: "jsnum \<Rightarrow> string" where
  "num_to_string None = ''NaN''"
| "num_to_string (Some n) = string_of_nat n"

text \<open>The text of \<open>s[i]\<close> when it is appended to or drawn as a string.\<close>

fun char_to_string :: "char option \<Rightarrow> string" where
  "char_to_string None = ''undefined''"
| "char_to_string (Some c) = [c]"

text \<open>\<open>s.padStart(n, c)\<close> with a one-character pad, \<open>s.substring(0, n)\<close> and \<open>s.slice(a, b)\<close>
  for \<open>0 \<le> a \<le> b\<close>.\<close>

definition padStart :: "nat \<Rightarrow> char \<Rightarrow> string \<Rightarrow> string" where
  "padStart n c s = replicate (n - length s) c @ s"

definition substring0 :: "nat \<Rightarrow> string \<Rightarrow> string" where
  "substring0 n s = take n s"

definition slice :: "nat \<Rightarrow> nat \<Rightarrow> string \<Rightarrow> string" where
  "slice a b s = take (b - a) (drop a s)"

text \<open>A thrown \<open>Error\<close>, with its message.\<close>

datatype error = Error string


section \<open>Encoding tables\<close>

definition L_CODES :: "string list" where
  "L_CODES =
     [''0001101'', ''0011001'', ''0010011'', ''0111101'', ''0100011'',
      ''0110001'', ''0101111'', ''0111011'', ''0110111'', ''0001011'']"

definition R_CODES :: "string list" where
  "R_CODES =
     [''1110010'', ''1100110'', ''1101100'', ''1000010'', ''1011100'',
      ''1001110'', ''1010000'', ''1000100'', ''1001000'', ''1110100'']"

text \<open>\<open>TABLE[digit]\<close> appended to a string: \<open>undefined\<close> when the index is \<open>NaN\<close> or
  beyond the table.\<close>

fun table_entry :: "string list \<Rightarrow> jsnum \<Rightarrow> string" where
  "table_entry t None = ''undefined''"
| "table_entry t (Some d) = (if d < length t then t ! d else ''undefined'')"

text \<open>Swapping \<open>0\<close> and \<open>1\<close> in a module string; other characters are left alone.\<close>

definition complement_bit :: "char \<Rightarrow> char" where
  "complement_bit c =
     (if c = CHR ''0'' then CHR ''1'' else if c = CHR ''1'' then CHR ''0'' else c)"


section \<open>Checksum engine\<close>

text \<open>
  \<^verbatim>\<open>
  function calculateChecksum(code11) {
      code11 = String(code11).replace(/\D/g, '');
      if (code11.length < 11) { code11 = code11.padStart(11, '0'); }
      code11 = code11.substring(0, 11);
      let sum = 0;
      for (let i = 0; i < 11; i++) {
          sum += parseInt(code11[i]) * (i % 2 === 0 ? 3 : 1);
      }
      return (10 - (sum % 10)) % 10;
  }
  \<close>
  The sum is never negative, so \<open>%\<close> is \<open>mod\<close> and \<open>10 - sum % 10\<close> is at least 1.
\<close>

definition checksum_step :: "string \<Rightarrow> jsnum \<Rightarrow> nat \<Rightarrow> jsnum" where
  "checksum_step code11 acc i =
     num_add acc (num_mul (parseInt (char_at code11 i)) (Some (if i mod 2 = 0 then 3 else 1)))"

definition calculateChecksum :: "string \<Rightarrow> jsnum" where
  "calculateChecksum code =
     (let code11 = stripNonDigits code;
          code11 = (if length code11 < 11 then padStart 11 (CHR ''0'') code11 else code11);
          code11 = substring0 11 code11;
          acc = foldl (checksum_step code11) (Some 0) [0..<11]
      in map_option (\<lambda>s. (10 - s mod 10) mod 10) acc)"

text \<open>
  The check digit in the words of the specification: the digit string is padded on the
  left with \<open>0\<close> to 11 digits or cut to its first 11, the digit at index \<open>i\<close> weighs 3
  when \<open>i\<close> is even and 1 when it is odd, and the result is \<open>(10 - sum mod 10) mod 10\<close>.
\<close>

definition digit_value :: "char \<Rightarrow> nat" where
  "digit_value c = of_char c - 48"

definition eleven_digits :: "string \<Rightarrow> string" where
  "eleven_digits s =
     (let d = filter is_digit s
      in if length d < 11 then replicate (11 - length d) (CHR ''0'') @ d else take 11 d)"

definition weighted_sum :: "string \<Rightarrow> nat" where
  "weighted_sum ds =
     sum_list (map (\<lambda>i. (if even i then 3 else 1) * digit_value (ds ! i)) [0..<11])"

definition checksum_spec :: "string \<Rightarrow> nat" where
  "checksum_spec s = (10 - weighted_sum (eleven_digits s) mod 10) mod 10"


section \<open>Input normalizer\<close>

text \<open>
  The only field of the options object that the normalizer reads is \<open>options.checksum\<close>.
  It is passed here as a \<open>string option\<close>: \<open>None\<close> when the field is absent, as in the
  default \<open>options = {}\<close>.
\<close>

text \<open>\<open>options.checksum || 'auto'\<close>: an absent or empty value gives \<open>'auto'\<close>.\<close>

definition checksumMode :: "string option \<Rightarrow> string" where
  "checksumMode checksum =
     (case checksum of
        None \<Rightarrow> ''auto''
      | Some m \<Rightarrow> if m = [] then ''auto'' else m)"

definition normalizeInput :: "string \<Rightarrow> string option \<Rightarrow> error + string" where
  "normalizeInput raw checksum =
     (let code = stripNonDigits raw;
          mode = checksumMode checksum
      in if length code = 11 then Inr (code @ num_to_string (calculateChecksum code))
         else if length code = 12 then
           (let providedCheck = parseInt (char_at code 11);
                calculatedCheck = calculateChecksum (substring0 11 code)
            in if mode = ''validate'' then
                 (if strict_ne providedCheck calculatedCheck
                  then Inl (Error (''Invalid UPC-A checksum: expected ''
                                   @ num_to_string calculatedCheck
                                   @ '', got '' @ num_to_string providedCheck))
                  else Inr code)
               else if mode = ''recalculate'' then
                 Inr (substring0 11 code @ num_to_string calculatedCheck)
               else Inr (substring0 11 code @ num_to_string calculatedCheck))
         else if length code < 11 then
           (let code = padStart 11 (CHR ''0'') code
            in Inr (code @ num_to_string (calculateChecksum code)))
         else Inl (Error ''UPC-A requires 11 or 12 digits''))"

text \<open>The two failures of the normalizer, recognised by the text of their messages.\<close>

definition invalid_length :: "error + string \<Rightarrow> bool" where
  "invalid_length r =
     (case r of Inl (Error msg) \<Rightarrow> sublist ''requires 11 or 12 digits'' msg | Inr _ \<Rightarrow> False)"

definition invalid_checksum :: "error + string \<Rightarrow> bool" where
  "invalid_checksum r =
     (case r of Inl (Error msg) \<Rightarrow> sublist ''Invalid UPC-A checksum'' msg | Inr _ \<Rightarrow> False)"

text \<open>A canonical code: exactly 12 characters, all of them digits.\<close>

definition is_code12 :: "string \<Rightarrow> bool" where
  "is_code12 s = (length s = 12 \<and> list_all is_digit s)"


section \<open>Validator and formatter\<close>

definition validate :: "string \<Rightarrow> bool" where
  "validate raw =
     (let code = stripNonDigits raw
      in if length code = 11 then True
         else if length code = 12 then
           \<not> strict_ne (parseInt (char_at code 11)) (calculateChecksum (substring0 11 code))
         else if 0 < length code \<and> length code < 11 then True
         else False)"

text \<open>
  \<^verbatim>\<open>
  function formatUPC(code12) {
      code12 = String(code12).replace(/\D/g, '');
      if (code12.length !== 12) { code12 = normalizeInput(code12); }
      return code12.slice(0, 1) + '-' + code12.slice(1, 6) + '-' +
          code12.slice(6, 11) + '-' + code12.slice(11);
  }
  \<close>
\<close>

definition formatUPC :: "string \<Rightarrow> error + string" where
  "formatUPC raw =
     (let code12 = stripNonDigits raw;
          normalized = (if length code12 \<noteq> 12 then normalizeInput code12 None else Inr code12)
      in case normalized of
           Inl e \<Rightarrow> Inl e
         | Inr code12 \<Rightarrow>
             Inr (slice 0 1 code12 @ ''-'' @ slice 1 6 code12 @ ''-''
                  @ slice 6 11 code12 @ ''-'' @ drop 11 code12))"


section \<open>Symbol encoder\<close>

record encoded =
  encoding :: string
  fullCode :: string

definition encode_digit :: "string list \<Rightarrow> string \<Rightarrow> string \<Rightarrow> nat \<Rightarrow> string" where
  "encode_digit t code enc i = enc @ table_entry t (parseInt (char_at code i))"

definition encode :: "string \<Rightarrow> string option \<Rightarrow> error + encoded" where
  "encode code checksum =
     (case normalizeInput code checksum of
        Inl e \<Rightarrow> Inl e
      | Inr full \<Rightarrow>
          (let enc = ''101'';
               enc = foldl (encode_digit L_CODES full) enc [0..<6];
               enc = enc @ ''01010'';
               enc = foldl (encode_digit R_CODES full) enc [6..<12];
               enc = enc @ ''101''
           in Inr \<lparr>encoding = enc, fullCode = full\<rparr>))"


section \<open>Render options\<close>

text \<open>
  Both renderers start with \<open>const opts = { ...DEFAULTS, ...options }\<close> and read every
  setting from \<open>opts\<close>. The record below is that merged object: a caller who passes
  \<open>{ style: 'flat' }\<close> renders with \<open>DEFAULTS\<lparr>style := ''flat''\<rparr>\<close>. Sizes are JavaScript
  numbers, modelled as real numbers; rounding of floating-point arithmetic is not
  modelled.
\<close>

record options =
  moduleWidth :: real
  height :: real
  guardExtend :: real
  fontSize :: real
  smallDigitFontSize :: real
  textMargin :: real
  quietZone :: real
  outerDigitGap :: real
  paddingLeft :: real
  paddingRight :: real
  paddingTop :: real
  paddingBottom :: real
  background :: string
  foreground :: string
  font :: string
  style :: string
  checksum :: "string option"

definition DEFAULTS :: options where
  "DEFAULTS =
     \<lparr>moduleWidth = 2, height = 70, guardExtend = 10, fontSize = 14,
      smallDigitFontSize = 10, textMargin = 2, quietZone = 9, outerDigitGap = 2,
      paddingLeft = 0, paddingRight = 0, paddingTop = 0, paddingBottom = 0,
      background = ''#FFFFFF'', foreground = ''#000000'',
      font = ''\"OCR-B\", \"Courier New\", monospace'',
      style = ''notched'', checksum = Some ''auto''\<rparr>"

text \<open>The guard modules: start (0-2), center (45-49), end (92-94).\<close>

definition isGuard :: "nat \<Rightarrow> bool" where
  "isGuard i = (i < 3 \<or> (45 \<le> i \<and> i < 50) \<or> 92 \<le> i)"

text \<open>
  The guard regions in the words of the specification: the module indices 0-2, 45-49
  and 92-94 of the 95-module pattern, listed one by one.
\<close>

definition guard_modules :: "nat list" where
  "guard_modules = [0, 1, 2, 45, 46, 47, 48, 49, 92, 93, 94]"


section \<open>Raster renderer\<close>

text \<open>
  The drawing surface records the width and height that \<open>render\<close> assigns to it and the
  calls made on its 2D context since it was last resized (assigning \<open>canvas.width\<close>
  clears it). A call carries the context state it is drawn with. What the browser does
  with the assigned size afterwards is outside the program.
\<close>

datatype canvas_call =
    FillRect string real real real real
      \<comment> \<open>fillStyle; x, y, width, height\<close>
  | FillText string real string string string string real real
      \<comment> \<open>fillStyle, font size in px, font family, textAlign, textBaseline; text, x, y\<close>

record canvas =
  canvas_width :: real
  canvas_height :: real
  calls :: "canvas_call list"

text \<open>
  The loop over the modules: \<open>x\<close> is the left edge of module \<open>i\<close>, advanced by
  \<open>moduleWidth\<close> after every module, drawn or not.
\<close>

fun render_bars :: "options \<Rightarrow> string \<Rightarrow> real \<Rightarrow> real \<Rightarrow> real \<Rightarrow> nat list \<Rightarrow> canvas_call list" where
  "render_bars opts enc guardHeight offsetY x [] = []"
| "render_bars opts enc guardHeight offsetY x (i # rest) =
     (let barHeight = (if style opts = ''notched'' \<and> isGuard i then guardHeight else height opts)
      in (if char_at enc i = Some (CHR ''1'')
          then [FillRect (foreground opts) x offsetY (moduleWidth opts) barHeight]
          else [])
         @ render_bars opts enc guardHeight offsetY (x + moduleWidth opts) rest)"

definition render_text :: "options \<Rightarrow> string \<Rightarrow> nat \<Rightarrow> real \<Rightarrow> real \<Rightarrow> canvas_call list" where
  "render_text opts full encLength barcodeStartX textY =
     (if fontSize opts > 0 then
        (let smallDigitY = textY + (fontSize opts - smallDigitFontSize opts) / 2;
             leftStart = barcodeStartX + 3 * moduleWidth opts;
             rightStart = barcodeStartX + 50 * moduleWidth opts;
             endGuardX = barcodeStartX + real encLength * moduleWidth opts
         in [FillText (foreground opts) (smallDigitFontSize opts) (font opts) ''right'' ''top''
               (char_to_string (char_at full 0)) (barcodeStartX - outerDigitGap opts) smallDigitY]
            @ map (\<lambda>i. FillText (foreground opts) (fontSize opts) (font opts) ''center'' ''top''
                        (char_to_string (char_at full (i + 1)))
                        (leftStart + (real i + 0.5) * 7 * moduleWidth opts) textY) [0..<5]
            @ map (\<lambda>i. FillText (foreground opts) (fontSize opts) (font opts) ''center'' ''top''
                        (char_to_string (char_at full (i + 6)))
                        (rightStart + (real i + 0.5) * 7 * moduleWidth opts) textY) [0..<5]
            @ [FillText (foreground opts) (smallDigitFontSize opts) (font opts) ''left'' ''top''
                 (char_to_string (char_at full 11)) (endGuardX + outerDigitGap opts) smallDigitY])
      else [])"

text \<open>
  \<open>render(canvas, code, options)\<close>. The first argument is \<open>None\<close> when the selector finds
  no element or the element has no \<open>getContext\<close>.
\<close>

definition render :: "canvas option \<Rightarrow> string \<Rightarrow> options \<Rightarrow> error + canvas" where
  "render target code opts =
     (case target of
        None \<Rightarrow> Inl (Error ''Invalid canvas element'')
      | Some cv \<Rightarrow>
          (case encode code (checksum opts) of
             Inl e \<Rightarrow> Inl e
           | Inr enc \<Rightarrow>
               (let barcodeWidth = real (length (encoding enc)) * moduleWidth opts;
                    guardHeight = (if style opts = ''notched''
                                   then height opts + guardExtend opts else height opts);
                    quietZonePx = quietZone opts * moduleWidth opts;
                    outerDigitWidth = smallDigitFontSize opts * 0.7;
                    leftOuterSpace = outerDigitWidth + outerDigitGap opts;
                    rightOuterSpace = outerDigitWidth + outerDigitGap opts;
                    contentWidth = leftOuterSpace + quietZonePx + barcodeWidth + quietZonePx
                                   + rightOuterSpace;
                    contentHeight = guardHeight + fontSize opts + textMargin opts;
                    totalWidth = contentWidth + paddingLeft opts + paddingRight opts;
                    totalHeight = contentHeight + paddingTop opts + paddingBottom opts;
                    barcodeStartX = paddingLeft opts + leftOuterSpace + quietZonePx;
                    offsetY = paddingTop opts;
                    textY = offsetY + height opts + textMargin opts
                in Inr (cv\<lparr>canvas_width := totalWidth, canvas_height := totalHeight,
                          calls := FillRect (background opts) 0 0 totalWidth totalHeight
                                   # render_bars opts (encoding enc) guardHeight offsetY
                                       barcodeStartX [0..<length (encoding enc)]
                                   @ render_text opts (fullCode enc) (length (encoding enc))
                                       barcodeStartX textY\<rparr>))))"


section \<open>Vector renderer\<close>

definition SVG_NS :: string where
  "SVG_NS = ''http://www.w3.org/2000/svg''"

datatype svg_node =
    Rect "real option" "real option" real real string
      \<comment> \<open>x, y (absent on the background), width, height, fill\<close>
  | Text real real string string real string string
      \<comment> \<open>x, y, text-anchor, font-family, font-size, fill; textContent\<close>

record svg =
  xmlns :: string
  svg_width :: real
  svg_height :: real
  viewBox :: "real \<times> real \<times> real \<times> real"
  children :: "svg_node list"

fun renderSVG_bars :: "options \<Rightarrow> string \<Rightarrow> real \<Rightarrow> real \<Rightarrow> real \<Rightarrow> nat list \<Rightarrow> svg_node list" where
  "renderSVG_bars opts enc guardHeight offsetY x [] = []"
| "renderSVG_bars opts enc guardHeight offsetY x (i # rest) =
     (let barHeight = (if style opts = ''notched'' \<and> isGuard i then guardHeight else height opts)
      in (if char_at enc i = Some (CHR ''1'')
          then [Rect (Some x) (Some offsetY) (moduleWidth opts) barHeight (foreground opts)]
          else [])
         @ renderSVG_bars opts enc guardHeight offsetY (x + moduleWidth opts) rest)"

definition renderSVG_text :: "options \<Rightarrow> string \<Rightarrow> nat \<Rightarrow> real \<Rightarrow> real \<Rightarrow> svg_node list" where
  "renderSVG_text opts full encLength barcodeStartX offsetY =
     (if fontSize opts > 0 then
        (let textY = offsetY + height opts + textMargin opts + fontSize opts;
             smallDigitY = textY - (fontSize opts - smallDigitFontSize opts) / 2;
             leftStart = barcodeStartX + 3 * moduleWidth opts;
             rightStart = barcodeStartX + 50 * moduleWidth opts;
             endGuardX = barcodeStartX + real encLength * moduleWidth opts
         in [Text (barcodeStartX - outerDigitGap opts) smallDigitY ''end'' (font opts)
               (smallDigitFontSize opts) (foreground opts) (char_to_string (char_at full 0))]
            @ map (\<lambda>i. Text (leftStart + (real i + 0.5) * 7 * moduleWidth opts) textY ''middle''
                        (font opts) (fontSize opts) (foreground opts)
                        (char_to_string (char_at full (i + 1)))) [0..<5]
            @ map (\<lambda>i. Text (rightStart + (real i + 0.5) * 7 * moduleWidth opts) textY ''middle''
                        (font opts) (fontSize opts) (foreground opts)
                        (char_to_string (char_at full (i + 6)))) [0..<5]
            @ [Text (endGuardX + outerDigitGap opts) smallDigitY ''start'' (font opts)
                 (smallDigitFontSize opts) (foreground opts) (char_to_string (char_at full 11))])
      else [])"

text \<open>
  \<open>renderSVG(svg, code, options)\<close>. The first argument is \<open>None\<close> when no element is
  found. The element's children are replaced (\<open>svg.innerHTML = ''\<close>).
\<close>

definition renderSVG :: "svg option \<Rightarrow> string \<Rightarrow> options \<Rightarrow> error + svg" where
  "renderSVG target code opts =
     (case target of
        None \<Rightarrow> Inl (Error ''Invalid SVG element'')
      | Some sv \<Rightarrow>
          (case encode code (checksum opts) of
             Inl e \<Rightarrow> Inl e
           | Inr enc \<Rightarrow>
               (let barcodeWidth = real (length (encoding enc)) * moduleWidth opts;
                    guardHeight = (if style opts = ''notched''
                                   then height opts + guardExtend opts else height opts);
                    quietZonePx = quietZone opts * moduleWidth opts;
                    outerDigitWidth = smallDigitFontSize opts * 0.7;
                    leftOuterSpace = outerDigitWidth + outerDigitGap opts;
                    rightOuterSpace = outerDigitWidth + outerDigitGap opts;
                    contentWidth = leftOuterSpace + quietZonePx + barcodeWidth + quietZonePx
                                   + rightOuterSpace;
                    contentHeight = guardHeight + fontSize opts + textMargin opts;
                    totalWidth = contentWidth + paddingLeft opts + paddingRight opts;
                    totalHeight = contentHeight + paddingTop opts + paddingBottom opts;
                    barcodeStartX = paddingLeft opts + leftOuterSpace + quietZonePx;
                    offsetY = paddingTop opts
                in Inr (sv\<lparr>xmlns := SVG_NS, svg_width := totalWidth, svg_height := totalHeight,
                          viewBox := (0, 0, totalWidth, totalHeight),
                          children := Rect None None totalWidth totalHeight (background opts)
                                      # renderSVG_bars opts (encoding enc) guardHeight offsetY
                                          barcodeStartX [0..<length (encoding enc)]
                                      @ renderSVG_text opts (fullCode enc) (length (encoding enc))
                                          barcodeStartX offsetY\<rparr>))))"


section \<open>Digits and their text\<close>

lemma parseInt_digit: "is_digit c \<Longrightarrow> parseInt (Some c) = Some (digit_value c)"
  by (simp add: digit_value_def)

lemma digit_value_lt: "is_digit c \<Longrightarrow> digit_value c < 10"
  by (auto simp: is_digit_def digit_value_def)

lemma string_of_digit [simp]: "n < 10 \<Longrightarrow> string_of_nat n = [digit_char n]"
  by (simp add: string_of_nat.simps)

lemma is_digit_char_of: "n < 10 \<Longrightarrow> is_digit (digit_char n)"
  by (simp add: is_digit_def digit_char_def)

lemma digit_value_char_of: "n < 10 \<Longrightarrow> digit_value (digit_char n) = n"
  by (simp add: digit_value_def digit_char_def)

lemma char_of_digit_value: "is_digit c \<Longrightarrow> digit_char (digit_value c) = c"
  by (simp add: digit_value_def is_digit_def digit_char_def)

lemma is_digit_zero: "is_digit (CHR ''0'')"
  by (simp add: is_digit_def)

lemma num_to_string_parseInt:
  "is_digit c \<Longrightarrow> num_to_string (parseInt (Some c)) = [c]"
  using digit_value_lt [of c] by (simp add: parseInt_digit char_of_digit_value del: parseInt.simps)

lemma stripNonDigits_digits: "\<forall>c \<in> set (stripNonDigits s). is_digit c"
  by (simp add: stripNonDigits_def)

lemma stripNonDigits_all: "list_all is_digit (stripNonDigits s)"
  by (simp add: stripNonDigits_def list_all_iff)

lemma stripNonDigits_idem: "list_all is_digit s \<Longrightarrow> stripNonDigits s = s"
  by (simp add: stripNonDigits_def list_all_iff)

lemma padStart_digits:
  "list_all is_digit s \<Longrightarrow> list_all is_digit (padStart n (CHR ''0'') s)"
  by (auto simp: padStart_def is_digit_zero list_all_iff)

lemma padStart_length: "length s \<le> n \<Longrightarrow> length (padStart n c s) = n"
  by (simp add: padStart_def)

lemma split_last_index: "length xs = Suc n \<Longrightarrow> take n xs @ [xs ! n] = xs"
  using take_Suc_conv_app_nth [of n xs] by simp


section \<open>The checksum engine computes the weighted sum\<close>

text \<open>
  The loop of \<open>calculateChecksum\<close> never meets \<open>NaN\<close> on a string of digits whose indices
  are all in range: it adds up the weighted digit values.
\<close>

lemma foldl_checksum_step:
  "\<forall>i \<in> set js. i < length ds \<Longrightarrow> \<forall>c \<in> set ds. is_digit c \<Longrightarrow>
   foldl (checksum_step ds) (Some a) js =
     Some (a + sum_list (map (\<lambda>i. (if even i then 3 else 1) * digit_value (ds ! i)) js))"
proof (induction js arbitrary: a)
  case Nil
  then show ?case by simp
next
  case (Cons j js)
  then have "is_digit (ds ! j)" by simp
  then have "checksum_step ds (Some a) j = Some (a + (if even j then 3 else 1) * digit_value (ds ! j))"
    using Cons.prems(1) by (simp add: checksum_step_def char_at_def digit_value_def even_iff_mod_2_eq_zero)
  with Cons show ?case by (simp add: add.assoc)
qed

lemma eleven_digits_length: "length (eleven_digits s) = 11"
  by (simp add: eleven_digits_def Let_def)

lemma eleven_digits_digits: "\<forall>c \<in> set (eleven_digits s). is_digit c"
  by (auto simp: eleven_digits_def Let_def is_digit_zero dest: in_set_takeD)

lemma calculateChecksum_prep:
  "calculateChecksum s =
     map_option (\<lambda>t. (10 - t mod 10) mod 10)
       (foldl (checksum_step (eleven_digits s)) (Some 0) [0..<11])"
  by (simp add: calculateChecksum_def eleven_digits_def stripNonDigits_def padStart_def
      substring0_def Let_def)

lemma calculateChecksum_spec: "calculateChecksum s = Some (checksum_spec s)"
proof -
  have "\<forall>i \<in> set [0..<11]. i < length (eleven_digits s)"
    by (simp add: eleven_digits_length)
  then have "foldl (checksum_step (eleven_digits s)) (Some 0) [0..<11] =
      Some (weighted_sum (eleven_digits s))"
    using foldl_checksum_step [of "[0..<11]" "eleven_digits s" 0] eleven_digits_digits [of s]
    by (simp add: weighted_sum_def)
  then show ?thesis
    by (simp add: calculateChecksum_prep checksum_spec_def)
qed

lemma checksum_spec_lt: "checksum_spec s < 10"
  by (simp add: checksum_spec_def)

lemma num_to_string_checksum:
  "num_to_string (calculateChecksum s) = [digit_char (checksum_spec s)]"
  using checksum_spec_lt [of s] by (simp add: calculateChecksum_spec)

text \<open>
  Claim C3. For every input string, \<open>calculateChecksum\<close> removes the characters that are
  not digits, pads the rest on the left with \<open>0\<close> to 11 digits when fewer remain and keeps
  the first 11 when more remain, and returns \<open>(10 - (sum mod 10)) mod 10\<close>, where the sum
  weighs the digit at index \<open>i\<close> (from 0) by 3 when \<open>i\<close> is even and by 1 when it is odd.
  The result is a number from 0 to 9, never \<open>NaN\<close>, and the check digit of
  \<open>01234567890\<close> is 5.
\<close>

theorem calculateChecksum_weighted_mod10:
  "calculateChecksum s = Some ((10 - weighted_sum (eleven_digits s) mod 10) mod 10)
   \<and> (\<exists>d. calculateChecksum s = Some d \<and> d < 10)
   \<and> calculateChecksum ''01234567890'' = Some 5"
proof -
  have "calculateChecksum s = Some (checksum_spec s)"
    by (rule calculateChecksum_spec)
  moreover have "checksum_spec ''01234567890'' = 5"
    by (simp add: checksum_spec_def weighted_sum_def eleven_digits_def is_digit_def
        digit_value_def upt_rec [of _ "numeral _"])
  ultimately show ?thesis
    using checksum_spec_lt [of s] by (simp add: checksum_spec_def calculateChecksum_spec)
qed

theorem calculateChecksum_weighted_mod10_witness:
  "calculateChecksum ''03600029145'' = Some 2"
  using calculateChecksum_weighted_mod10 [of "''03600029145''"]
  by (simp add: weighted_sum_def eleven_digits_def is_digit_def digit_value_def
      upt_rec [of _ "numeral _"])


section \<open>The two encoding tables\<close>

lemma R_CODES_map: "R_CODES = map (map complement_bit) L_CODES"
  by (simp add: R_CODES_def L_CODES_def complement_bit_def)

lemma length_L_CODES: "length L_CODES = 10"
  by (simp add: L_CODES_def)

text \<open>
  Claim C7, as the specification states it: for every digit \<open>d\<close>, \<open>R_CODES[d]\<close> is the
  complement of \<open>L_CODES[d]\<close> read in reverse order. The tables do not stand in that
  relation: for the digit 0, \<open>L_CODES[0]\<close> is \<open>0001101\<close>, its reverse complemented is
  \<open>0100111\<close>, and \<open>R_CODES[0]\<close> is \<open>1110010\<close>.
\<close>

theorem R_CODES_not_reversed_complement:
  "R_CODES ! 0 \<noteq> map complement_bit (rev (L_CODES ! 0))"
  by (simp add: R_CODES_def L_CODES_def complement_bit_def)

text \<open>
  Claim C7, amended: for every digit \<open>d\<close> from 0 to 9, \<open>R_CODES[d]\<close> is the
  character-wise complement of \<open>L_CODES[d]\<close>, in the same order.
\<close>

theorem R_CODES_complement:
  "d < 10 \<Longrightarrow> R_CODES ! d = map complement_bit (L_CODES ! d)"
  by (simp add: R_CODES_map length_L_CODES)

theorem R_CODES_complement_witness:
  "(3::nat) < 10 \<and> R_CODES ! 3 = map complement_bit (L_CODES ! 3) \<and> R_CODES ! 3 = ''1000010''"
  using R_CODES_complement [of 3] by (simp add: R_CODES_def)

section \<open>What the normalizer returns\<close>

lemma normalizeInput_11:
  "length (stripNonDigits raw) = 11 \<Longrightarrow>
   normalizeInput raw m = Inr (stripNonDigits raw @ [digit_char (checksum_spec (stripNonDigits raw))])"
  by (simp add: normalizeInput_def Let_def num_to_string_checksum)

lemma normalizeInput_short:
  "length (stripNonDigits raw) < 11 \<Longrightarrow>
   normalizeInput raw m =
     Inr (padStart 11 (CHR ''0'') (stripNonDigits raw)
          @ [digit_char (checksum_spec (padStart 11 (CHR ''0'') (stripNonDigits raw)))])"
  by (simp add: normalizeInput_def Let_def num_to_string_checksum)

lemma normalizeInput_long:
  "12 < length (stripNonDigits raw) \<Longrightarrow>
   normalizeInput raw m = Inl (Error ''UPC-A requires 11 or 12 digits'')"
  by (simp add: normalizeInput_def Let_def)

lemma normalizeInput_12_overwrite:
  "length (stripNonDigits raw) = 12 \<Longrightarrow> checksumMode m \<noteq> ''validate'' \<Longrightarrow>
   normalizeInput raw m =
     Inr (take 11 (stripNonDigits raw) @ [digit_char (checksum_spec (take 11 (stripNonDigits raw)))])"
  by (simp add: normalizeInput_def Let_def num_to_string_checksum substring0_def)

lemma provided_check:
  "length (stripNonDigits raw) = 12 \<Longrightarrow>
   parseInt (char_at (stripNonDigits raw) 11) = Some (digit_value (stripNonDigits raw ! 11))"
  using stripNonDigits_digits [of raw]
  by (simp add: char_at_def parseInt_digit del: parseInt.simps)

lemma normalizeInput_12_validate:
  "length (stripNonDigits raw) = 12 \<Longrightarrow> checksumMode m = ''validate'' \<Longrightarrow>
   normalizeInput raw m =
     (if digit_value (stripNonDigits raw ! 11) \<noteq> checksum_spec (take 11 (stripNonDigits raw))
      then Inl (Error (''Invalid UPC-A checksum: expected ''
                       @ [digit_char (checksum_spec (take 11 (stripNonDigits raw)))]
                       @ '', got '' @ [stripNonDigits raw ! 11]))
      else Inr (stripNonDigits raw))"
proof -
  assume len: "length (stripNonDigits raw) = 12" and mode: "checksumMode m = ''validate''"
  have dig: "is_digit (stripNonDigits raw ! 11)"
    using stripNonDigits_digits [of raw] len by simp
  have got: "num_to_string (parseInt (char_at (stripNonDigits raw) 11)) = [stripNonDigits raw ! 11]"
    using len dig by (simp add: char_at_def num_to_string_parseInt del: parseInt.simps)
  show ?thesis
    using len mode got
    by (simp add: normalizeInput_def Let_def num_to_string_checksum substring0_def
        provided_check calculateChecksum_spec checksum_spec_lt)
qed

text \<open>Every code the normalizer returns is an 11-digit payload followed by its check digit.\<close>

lemma normalizeInput_shape:
  assumes "normalizeInput raw m = Inr y"
  shows "\<exists>p. length p = 11 \<and> list_all is_digit p \<and> y = p @ [digit_char (checksum_spec p)]"
proof -
  let ?d = "stripNonDigits raw"
  have all: "list_all is_digit ?d" by (rule stripNonDigits_all)
  consider (short) "length ?d < 11" | (eleven) "length ?d = 11" | (twelve) "length ?d = 12"
    | (long) "12 < length ?d" by linarith
  then show ?thesis
  proof cases
    case short
    then have "y = padStart 11 (CHR ''0'') ?d @ [digit_char (checksum_spec (padStart 11 (CHR ''0'') ?d))]"
      using assms normalizeInput_short [of raw m] by simp
    moreover have "length (padStart 11 (CHR ''0'') ?d) = 11"
      using short by (simp add: padStart_length)
    ultimately show ?thesis using padStart_digits [OF all] by blast
  next
    case eleven
    then have "y = ?d @ [digit_char (checksum_spec ?d)]"
      using assms normalizeInput_11 [of raw m] by simp
    then show ?thesis using eleven all by blast
  next
    case twelve
    have len: "length (take 11 ?d) = 11" using twelve by simp
    have dig: "list_all is_digit (take 11 ?d)"
      using all by (auto simp: list_all_iff dest: in_set_takeD)
    show ?thesis
    proof (cases "checksumMode m = ''validate''")
      case False
      then have "y = take 11 ?d @ [digit_char (checksum_spec (take 11 ?d))]"
        using assms twelve normalizeInput_12_overwrite [of raw m] by simp
      then show ?thesis using len dig by blast
    next
      case True
      have eq: "digit_value (?d ! 11) = checksum_spec (take 11 ?d)" and y: "y = ?d"
        using assms twelve True normalizeInput_12_validate [of raw m]
        by (auto split: if_splits)
      have "is_digit (?d ! 11)" using all twelve by (simp add: list_all_length)
      then have "?d ! 11 = digit_char (checksum_spec (take 11 ?d))"
        using eq char_of_digit_value [of "?d ! 11"] by simp
      moreover have "take 11 ?d @ [?d ! 11] = ?d"
        using twelve split_last_index [of ?d 11] by simp
      ultimately have "y = take 11 ?d @ [digit_char (checksum_spec (take 11 ?d))]"
        using y by simp
      then show ?thesis using len dig by blast
    qed
  next
    case long
    then show ?thesis using assms normalizeInput_long [of raw m] by simp
  qed
qed

lemma shape_is_code12:
  "length p = 11 \<Longrightarrow> list_all is_digit p \<Longrightarrow> is_code12 (p @ [digit_char (checksum_spec p)])"
  using checksum_spec_lt [of p] by (simp add: is_code12_def is_digit_char_of)

lemma normalizeInput_is_code12: "normalizeInput raw m = Inr y \<Longrightarrow> is_code12 y"
  using normalizeInput_shape [of raw m y] shape_is_code12 by blast

lemma invalid_length_message:
  "invalid_length (Inl (Error ''UPC-A requires 11 or 12 digits''))"
proof -
  have "''UPC-A requires 11 or 12 digits'' = ''UPC-A '' @ ''requires 11 or 12 digits'' @ []"
    by simp
  then have "sublist ''requires 11 or 12 digits'' ''UPC-A requires 11 or 12 digits''"
    unfolding sublist_def by blast
  then show ?thesis by (simp add: invalid_length_def)
qed

lemma not_digit_q: "\<not> is_digit (CHR ''q'')"
  by (simp add: is_digit_def)

lemma checksum_message_kind:
  assumes "is_digit a" and "is_digit b"
  shows "invalid_checksum (Inl (Error (''Invalid UPC-A checksum: expected '' @ [a] @ '', got '' @ [b])))"
    and "\<not> invalid_length (Inl (Error (''Invalid UPC-A checksum: expected '' @ [a] @ '', got '' @ [b])))"
proof -
  let ?msg = "''Invalid UPC-A checksum: expected '' @ [a] @ '', got '' @ [b]"
  have "?msg = [] @ ''Invalid UPC-A checksum'' @ ('': expected '' @ [a] @ '', got '' @ [b])"
    by simp
  then have "sublist ''Invalid UPC-A checksum'' ?msg"
    unfolding sublist_def by blast
  then show "invalid_checksum (Inl (Error ?msg))"
    by (simp add: invalid_checksum_def)
  have "a \<noteq> CHR ''q''" and "b \<noteq> CHR ''q''"
    using assms not_digit_q by auto
  then have "CHR ''q'' \<notin> set ?msg" by simp
  moreover have "CHR ''q'' \<in> set ''requires 11 or 12 digits''" by simp
  ultimately have "\<not> sublist ''requires 11 or 12 digits'' ?msg"
    using set_mono_sublist by blast
  then show "\<not> invalid_length (Inl (Error ?msg))"
    by (simp add: invalid_length_def)
qed

lemma mismatch_iff:
  "length (stripNonDigits raw) = 12 \<Longrightarrow>
   strict_ne (parseInt (char_at (stripNonDigits raw) 11))
             (calculateChecksum (substring0 11 (stripNonDigits raw)))
   = (digit_value (stripNonDigits raw ! 11) \<noteq> checksum_spec (take 11 (stripNonDigits raw)))"
  by (simp add: provided_check calculateChecksum_spec substring0_def)

lemma checksumMode_simps:
  "checksumMode (Some ''validate'') = ''validate''"
  "checksumMode (Some ''auto'') = ''auto''"
  "checksumMode (Some ''recalculate'') = ''recalculate''"
  "checksumMode None = ''auto''"
  by (simp_all add: checksumMode_def)

text \<open>
  Claim C1, as the specification states it: for every policy, every input with 1 to 12
  digits is normalized to a 12-digit code, and an input with no digit fails. Under the
  policy \<open>validate\<close> the 12 digits \<open>012345678900\<close>, whose check digit should be 5, are
  rejected instead; and the empty input does not fail, it is normalized to twelve zeros.
\<close>

theorem normalizeInput_validate_mismatch_fails:
  "length (stripNonDigits ''012345678900'') = 12
   \<and> normalizeInput ''012345678900'' (Some ''validate'')
       = Inl (Error ''Invalid UPC-A checksum: expected 5, got 0'')
   \<and> length (stripNonDigits []) = 0
   \<and> normalizeInput [] None = Inr ''000000000000''"
  by code_simp

text \<open>
  Claim C1, amended: for every input that keeps at least one digit and every checksum
  policy, \<open>normalizeInput\<close> fails with the error whose message contains
  \<open>requires 11 or 12 digits\<close> exactly when more than 12 digits remain. With 1 to 10
  digits it returns the digits padded on the left with \<open>0\<close> to 11, followed by their
  check digit; with 11 digits, the digits followed by their check digit; with 12 digits
  under a policy other than \<open>validate\<close>, the first 11 digits followed by their check
  digit; with 12 digits under \<open>validate\<close>, the 12 digits unchanged when the 12th is the
  check digit of the first 11, and the checksum error otherwise. Every code returned is
  12 digits long.
\<close>

theorem normalizeInput_length_outcome:
  fixes raw :: string and policy :: "string option"
  defines "d \<equiv> stripNonDigits raw"
    and "padded \<equiv> replicate (11 - length (stripNonDigits raw)) (CHR ''0'') @ stripNonDigits raw"
    and "mismatch \<equiv> strict_ne (parseInt (char_at (stripNonDigits raw) 11))
                               (calculateChecksum (substring0 11 (stripNonDigits raw)))"
  assumes "1 \<le> length d"
  shows "(invalid_length (normalizeInput raw policy) \<longleftrightarrow> 12 < length d)
       \<and> (length d \<le> 10 \<longrightarrow>
            normalizeInput raw policy = Inr (padded @ num_to_string (calculateChecksum padded)))
       \<and> (length d = 11 \<longrightarrow>
            normalizeInput raw policy = Inr (d @ num_to_string (calculateChecksum d)))
       \<and> (length d = 12 \<and> checksumMode policy \<noteq> ''validate'' \<longrightarrow>
            normalizeInput raw policy
              = Inr (take 11 d @ num_to_string (calculateChecksum (take 11 d))))
       \<and> (length d = 12 \<and> checksumMode policy = ''validate'' \<and> \<not> mismatch \<longrightarrow>
            normalizeInput raw policy = Inr d)
       \<and> (length d = 12 \<and> checksumMode policy = ''validate'' \<and> mismatch \<longrightarrow>
            invalid_checksum (normalizeInput raw policy))
       \<and> (length d \<le> 12 \<and> \<not> (length d = 12 \<and> checksumMode policy = ''validate'' \<and> mismatch) \<longrightarrow>
            (\<exists>code. normalizeInput raw policy = Inr code \<and> is_code12 code))"
proof -
  let ?r = "normalizeInput raw policy"
  have all: "list_all is_digit d"
    unfolding d_def by (rule stripNonDigits_all)
  have pad: "padStart 11 (CHR ''0'') d = padded"
    by (simp add: padStart_def padded_def d_def)
  have ok: "\<not> invalid_length ?r \<and> (\<exists>code. ?r = Inr code \<and> is_code12 code)" if "?r = Inr y" for y
    using that normalizeInput_is_code12 [of raw policy y] by (simp add: invalid_length_def)
  consider (short) "length d < 11" | (eleven) "length d = 11"
    | (overwrite) "length d = 12" "checksumMode policy \<noteq> ''validate''"
    | (validate) "length d = 12" "checksumMode policy = ''validate''"
    | (long) "12 < length d" by linarith
  then show ?thesis
  proof cases
    case short
    then have "?r = Inr (padded @ num_to_string (calculateChecksum padded))"
      using normalizeInput_short [of raw policy] pad
      by (simp add: d_def num_to_string_checksum)
    then show ?thesis using ok short by simp
  next
    case eleven
    then have "?r = Inr (d @ num_to_string (calculateChecksum d))"
      using normalizeInput_11 [of raw policy] by (simp add: d_def num_to_string_checksum)
    then show ?thesis using ok eleven by simp
  next
    case overwrite
    then have "?r = Inr (take 11 d @ num_to_string (calculateChecksum (take 11 d)))"
      using normalizeInput_12_overwrite [of raw policy]
      by (simp add: d_def num_to_string_checksum)
    then show ?thesis using ok overwrite by simp
  next
    case validate
    have mm: "mismatch = (digit_value (d ! 11) \<noteq> checksum_spec (take 11 d))"
      using validate(1) mismatch_iff [of raw] by (simp add: mismatch_def d_def)
    show ?thesis
    proof (cases mismatch)
      case False
      then have "?r = Inr d"
        using validate mm normalizeInput_12_validate [of raw policy] by (simp add: d_def)
      then show ?thesis using ok validate False by simp
    next
      case True
      have a: "is_digit (digit_char (checksum_spec (take 11 d)))"
        using checksum_spec_lt by (rule is_digit_char_of)
      have b: "is_digit (d ! 11)"
        using all validate(1) by (simp add: list_all_length)
      have "?r = Inl (Error (''Invalid UPC-A checksum: expected ''
                       @ [digit_char (checksum_spec (take 11 d))] @ '', got '' @ [d ! 11]))"
        using validate True mm normalizeInput_12_validate [of raw policy] by (simp add: d_def)
      then show ?thesis
        using checksum_message_kind [OF a b] validate True by simp
    qed
  next
    case long
    then show ?thesis
      using normalizeInput_long [of raw policy] invalid_length_message by (simp add: d_def)
  qed
qed

theorem normalizeInput_length_outcome_witness:
  "1 \<le> length (stripNonDigits ''12345'')
   \<and> \<not> invalid_length (normalizeInput ''12345'' None)
   \<and> normalizeInput ''12345'' None = Inr ''000000123457''
   \<and> 1 \<le> length (stripNonDigits ''0-12345-67890'')
   \<and> normalizeInput ''0-12345-67890'' (Some ''validate'') = Inr ''012345678905''
   \<and> 1 \<le> length (stripNonDigits ''012345678900'')
   \<and> normalizeInput ''012345678900'' (Some ''auto'') = Inr ''012345678905''
   \<and> normalizeInput ''012345678905'' (Some ''validate'') = Inr ''012345678905''
   \<and> invalid_checksum (normalizeInput ''012345678900'' (Some ''validate''))
   \<and> 1 \<le> length (stripNonDigits ''0123456789012'')
   \<and> invalid_length (normalizeInput ''0123456789012'' (Some ''validate''))"
proof -
  have s: "stripNonDigits ''12345'' = ''12345''"
    "stripNonDigits ''0-12345-67890'' = ''01234567890''"
    "stripNonDigits ''012345678900'' = ''012345678900''"
    "stripNonDigits ''012345678905'' = ''012345678905''"
    "stripNonDigits ''0123456789012'' = ''0123456789012''" by code_simp+
  have c: "num_to_string (calculateChecksum ''00000012345'') = ''7''"
    "num_to_string (calculateChecksum ''01234567890'') = ''5''" by code_simp+
  have m: "strict_ne (parseInt (char_at ''012345678900'' 11))
                     (calculateChecksum (substring0 11 ''012345678900''))"
    "\<not> strict_ne (parseInt (char_at ''012345678905'' 11))
                     (calculateChecksum (substring0 11 ''012345678905''))" by code_simp+
  have pol: "checksumMode (Some ''validate'') = ''validate''"
    "checksumMode (Some ''auto'') \<noteq> ''validate''"
    by (simp_all add: checksumMode_def)
  have r: "replicate 6 (CHR ''0'') = ''000000''" by code_simp
  show ?thesis
    using normalizeInput_length_outcome [of "''12345''" None]
      normalizeInput_length_outcome [of "''0-12345-67890''" "Some ''validate''"]
      normalizeInput_length_outcome [of "''012345678900''" "Some ''auto''"]
      normalizeInput_length_outcome [of "''012345678905''" "Some ''validate''"]
      normalizeInput_length_outcome [of "''012345678900''" "Some ''validate''"]
      normalizeInput_length_outcome [of "''0123456789012''" "Some ''validate''"]
    by (simp add: s c m pol r invalid_length_def)
qed

text \<open>
  An input without any digit takes the branch for short inputs: the normalizer returns
  twelve zeros, whatever the policy, while \<open>validate\<close> rejects the same input.
\<close>

lemma normalizeInput_empty:
  "normalizeInput [] policy = Inr ''000000000000''"
proof -
  have "stripNonDigits [] = []" by (simp add: stripNonDigits_def)
  moreover have "padStart 11 (CHR ''0'') [] = ''00000000000''" by code_simp
  moreover have "digit_char (checksum_spec ''00000000000'') = CHR ''0''" by code_simp
  ultimately show ?thesis
    using normalizeInput_short [of "[]" policy] by simp
qed

lemma validate_empty: "\<not> validate []"
  by code_simp

text \<open>
  Claim C4. For every input that keeps exactly 12 digits, \<open>normalizeInput\<close> with the
  policy \<open>validate\<close> fails exactly when the 12th digit differs from \<open>calculateChecksum\<close>
  of the first 11, with the message \<open>Invalid UPC-A checksum: expected E, got P\<close>, where
  \<open>E\<close> is the computed digit and \<open>P\<close> the 12th digit of the input; when the two are equal
  it returns the 12 digits unchanged.
\<close>

theorem normalizeInput_validate_12:
  "length (stripNonDigits raw) = 12 \<Longrightarrow>
   (let code = stripNonDigits raw;
        expected = calculateChecksum (substring0 11 code);
        provided = parseInt (char_at code 11)
    in normalizeInput raw (Some ''validate'') =
         (if provided \<noteq> expected
          then Inl (Error (''Invalid UPC-A checksum: expected '' @ num_to_string expected
                           @ '', got '' @ num_to_string provided))
          else Inr code)
       \<and> (\<exists>e. expected = Some e \<and> e < 10 \<and> num_to_string expected = [digit_char e])
       \<and> (\<exists>p. provided = Some p \<and> p < 10 \<and> num_to_string provided = [code ! 11]))"
proof -
  assume len: "length (stripNonDigits raw) = 12"
  let ?d = "stripNonDigits raw"
  have dig: "is_digit (?d ! 11)"
    using stripNonDigits_digits [of raw] len by simp
  have p: "parseInt (char_at ?d 11) = Some (digit_value (?d ! 11))"
    using len by (rule provided_check)
  have ptxt: "num_to_string (Some (digit_value (?d ! 11))) = [?d ! 11]"
    using dig digit_value_lt [of "?d ! 11"] by (simp add: char_of_digit_value)
  have e: "calculateChecksum (substring0 11 ?d) = Some (checksum_spec (take 11 ?d))"
    by (simp add: calculateChecksum_spec substring0_def)
  have etxt: "num_to_string (Some (checksum_spec (take 11 ?d))) = [digit_char (checksum_spec (take 11 ?d))]"
    by (simp add: checksum_spec_lt)
  have lt: "digit_value (?d ! 11) < 10"
    using dig by (rule digit_value_lt)
  show ?thesis
    unfolding Let_def p e
    using normalizeInput_12_validate [OF len, of "Some ''validate''"] ptxt etxt lt
    by (simp add: checksumMode_simps checksum_spec_lt)
qed

theorem normalizeInput_validate_12_witness:
  "length (stripNonDigits ''0-12345-67890-5'') = 12
   \<and> normalizeInput ''0-12345-67890-5'' (Some ''validate'') = Inr ''012345678905''
   \<and> length (stripNonDigits ''036000291453'') = 12
   \<and> normalizeInput ''036000291453'' (Some ''validate'')
       = Inl (Error ''Invalid UPC-A checksum: expected 2, got 3'')"
proof -
  have s1: "stripNonDigits ''0-12345-67890-5'' = ''012345678905''" by code_simp
  have s2: "stripNonDigits ''036000291453'' = ''036000291453''" by code_simp
  have c: "calculateChecksum (substring0 11 ''012345678905'') = Some 5"
    "calculateChecksum (substring0 11 ''036000291453'') = Some 2" by code_simp+
  have p: "parseInt (char_at ''012345678905'' 11) = Some 5"
    "parseInt (char_at ''036000291453'' 11) = Some 3" by code_simp+
  have t: "digit_char 2 = CHR ''2''" by code_simp
  show ?thesis
    using normalizeInput_validate_12 [of "''0-12345-67890-5''"]
      normalizeInput_validate_12 [of "''036000291453''"]
    by (simp add: s1 s2 c p t Let_def)
qed



text \<open>
  Claim C6. Whenever \<open>normalizeInput\<close> with the policy \<open>auto\<close> returns a code, normalizing
  that code again with the policy \<open>validate\<close> succeeds and returns it unchanged: its 12th
  digit is \<open>calculateChecksum\<close> of its first 11.
\<close>

theorem normalize_then_validate:
  assumes "normalizeInput x (Some ''auto'') = Inr y"
  shows "normalizeInput y (Some ''validate'') = Inr y
         \<and> parseInt (char_at y 11) = calculateChecksum (take 11 y)"
proof -
  obtain p where p: "length p = 11" "list_all is_digit p"
      and y: "y = p @ [digit_char (checksum_spec p)]"
    using normalizeInput_shape [OF assms] by blast
  have "is_code12 y" using p y by (simp add: shape_is_code12)
  then have strip: "stripNonDigits y = y" and len: "length y = 12"
    by (simp_all add: is_code12_def stripNonDigits_idem)
  have last: "y ! 11 = digit_char (checksum_spec p)" and front: "take 11 y = p"
    using p(1) y by (simp_all add: nth_append)
  have dv: "digit_value (y ! 11) = checksum_spec p"
    using last checksum_spec_lt [of p] by (simp add: digit_value_char_of)
  have "normalizeInput y (Some ''validate'') = Inr y"
    using normalizeInput_12_validate [of y "Some ''validate''"] strip len dv front
    by (simp add: checksumMode_simps)
  moreover have "parseInt (char_at y 11) = calculateChecksum (take 11 y)"
    using provided_check [of y] strip len dv front by (simp add: calculateChecksum_spec)
  ultimately show ?thesis by simp
qed

theorem normalize_then_validate_witness:
  "normalizeInput ''12345'' (Some ''auto'') = Inr ''000000123457''
   \<and> normalizeInput ''000000123457'' (Some ''validate'') = Inr ''000000123457''"
proof -
  have a: "normalizeInput ''12345'' (Some ''auto'') = Inr ''000000123457''" by code_simp
  show ?thesis using normalize_then_validate [OF a] a by simp
qed


section \<open>The formatter keeps twelve digits as they are\<close>

lemma list12:
  "length xs = 12 \<Longrightarrow>
   xs = [xs ! 0, xs ! 1, xs ! 2, xs ! 3, xs ! 4, xs ! 5, xs ! 6, xs ! 7, xs ! 8, xs ! 9, xs ! 10, xs ! 11]"
  by (rule nth_equalityI) (auto simp: nth_Cons' less_Suc_eq eval_nat_numeral)

text \<open>
  Claim C10. For every input that keeps exactly 12 digits, \<open>formatUPC\<close> returns those
  digits grouped 1-5-5-1 with hyphens and nothing else: the 12th digit is neither checked
  nor replaced, also when it is not the check digit of the first 11.
\<close>

theorem formatUPC_12_verbatim:
  "length (stripNonDigits raw) = 12 \<Longrightarrow>
   (let d = stripNonDigits raw
    in formatUPC raw = Inr ([d ! 0] @ ''-'' @ [d ! 1, d ! 2, d ! 3, d ! 4, d ! 5] @ ''-''
                            @ [d ! 6, d ! 7, d ! 8, d ! 9, d ! 10] @ ''-'' @ [d ! 11])
       \<and> (\<exists>out. formatUPC raw = Inr out \<and> stripNonDigits out = d))"
proof -
  assume len: "length (stripNonDigits raw) = 12"
  let ?d = "stripNonDigits raw"
  obtain a b c d e f g h i j k l where d: "?d = [a, b, c, d, e, f, g, h, i, j, k, l]"
    using list12 [OF len] by blast
  have "list_all is_digit ?d" by (rule stripNonDigits_all)
  then have digs: "is_digit a" "is_digit b" "is_digit c" "is_digit d" "is_digit e" "is_digit f"
    "is_digit g" "is_digit h" "is_digit i" "is_digit j" "is_digit k" "is_digit l"
    by (simp_all add: d)
  have hyphen: "\<not> is_digit (CHR ''-'')" by (simp add: is_digit_def)
  have out: "formatUPC raw = Inr [a, CHR ''-'', b, c, d, e, f, CHR ''-'', g, h, i, j, k, CHR ''-'', l]"
    by (simp add: formatUPC_def Let_def d slice_def)
  have "stripNonDigits [a, CHR ''-'', b, c, d, e, f, CHR ''-'', g, h, i, j, k, CHR ''-'', l]
          = [a, b, c, d, e, f, g, h, i, j, k, l]"
    using digs hyphen by (simp add: stripNonDigits_def)
  then show ?thesis
    using out by (simp add: Let_def d)
qed

theorem formatUPC_12_verbatim_witness:
  "length (stripNonDigits ''012345678900'') = 12
   \<and> formatUPC ''012345678900'' = Inr ''0-12345-67890-0''
   \<and> calculateChecksum ''01234567890'' = Some 5"
proof -
  have s: "stripNonDigits ''012345678900'' = ''012345678900''" by code_simp
  have c: "calculateChecksum ''01234567890'' = Some 5" by code_simp
  show ?thesis
    using formatUPC_12_verbatim [of "''012345678900''"] by (simp add: s c Let_def)
qed


section \<open>The encoded pattern\<close>

lemma foldl_encode_digit:
  "foldl (encode_digit t code) enc js
     = enc @ concat (map (\<lambda>i. table_entry t (parseInt (char_at code i))) js)"
  by (induction js arbitrary: enc) (simp_all add: encode_digit_def)

lemma L_CODES_entries: "\<forall>e \<in> set L_CODES. length e = 7 \<and> set e \<subseteq> {CHR ''0'', CHR ''1''}"
  by (simp add: L_CODES_def)

lemma R_CODES_entries: "\<forall>e \<in> set R_CODES. length e = 7 \<and> set e \<subseteq> {CHR ''0'', CHR ''1''}"
  by (simp add: R_CODES_def)

lemma length_R_CODES: "length R_CODES = 10"
  by (simp add: R_CODES_def)

lemma code12_entry:
  assumes "is_code12 full" and "i < 12" and "length t = 10"
  shows "table_entry t (parseInt (char_at full i)) = t ! digit_value (full ! i)"
    and "table_entry t (parseInt (char_at full i)) \<in> set t"
proof -
  have dig: "is_digit (full ! i)" and len: "i < length full"
    using assms(1,2) by (simp_all add: is_code12_def list_all_length)
  have lt: "digit_value (full ! i) < length t"
    using digit_value_lt [OF dig] assms(3) by simp
  show "table_entry t (parseInt (char_at full i)) = t ! digit_value (full ! i)"
    using len dig lt by (simp add: char_at_def parseInt_digit del: parseInt.simps)
  then show "table_entry t (parseInt (char_at full i)) \<in> set t"
    using lt by simp
qed

lemma modules_length:
  "\<forall>i \<in> set js. length (f i) = 7 \<Longrightarrow> length (concat (map f js)) = 7 * length js"
  by (induction js) simp_all

lemma modules_bits:
  "\<forall>i \<in> set js. set (f i) \<subseteq> B \<Longrightarrow> set (concat (map f js)) \<subseteq> B"
  by (induction js) simp_all

lemma pattern_layout:
  assumes "length A = 42" and "length B = 42"
  shows "length (''101'' @ A @ ''01010'' @ B @ ''101'') = 95"
    and "take 3 (''101'' @ A @ ''01010'' @ B @ ''101'') = ''101''"
    and "take 5 (drop 45 (''101'' @ A @ ''01010'' @ B @ ''101'')) = ''01010''"
    and "drop 92 (''101'' @ A @ ''01010'' @ B @ ''101'') = ''101''"
  using assms by simp_all

lemma encode_shape:
  assumes "normalizeInput code policy = Inr full"
  shows "\<exists>enc. encode code policy = Inr \<lparr>encoding = enc, fullCode = full\<rparr>
           \<and> length enc = 95
           \<and> set enc \<subseteq> {CHR ''0'', CHR ''1''}
           \<and> take 3 enc = ''101''
           \<and> take 5 (drop 45 enc) = ''01010''
           \<and> drop 92 enc = ''101''"
proof -
  let ?L = "concat (map (\<lambda>i. table_entry L_CODES (parseInt (char_at full i))) [0..<6])"
  let ?R = "concat (map (\<lambda>i. table_entry R_CODES (parseInt (char_at full i))) [6..<12])"
  let ?enc = "''101'' @ ?L @ ''01010'' @ ?R @ ''101''"
  have c12: "is_code12 full"
    using assms by (rule normalizeInput_is_code12)
  have inL: "table_entry L_CODES (parseInt (char_at full i)) \<in> set L_CODES" if "i < 12" for i
    using code12_entry(2) [OF c12 that length_L_CODES] .
  have inR: "table_entry R_CODES (parseInt (char_at full i)) \<in> set R_CODES" if "i < 12" for i
    using code12_entry(2) [OF c12 that length_R_CODES] .
  have lenL: "length ?L = 42"
    using modules_length [of "[0..<6]" "\<lambda>i. table_entry L_CODES (parseInt (char_at full i))"]
      inL L_CODES_entries by simp
  have lenR: "length ?R = 42"
    using modules_length [of "[6..<12]" "\<lambda>i. table_entry R_CODES (parseInt (char_at full i))"]
      inR R_CODES_entries by simp
  have bitsL: "set ?L \<subseteq> {CHR ''0'', CHR ''1''}"
    by (rule modules_bits) (use inL L_CODES_entries in auto)
  have bitsR: "set ?R \<subseteq> {CHR ''0'', CHR ''1''}"
    by (rule modules_bits) (use inR R_CODES_entries in auto)
  have enc: "encode code policy = Inr \<lparr>encoding = ?enc, fullCode = full\<rparr>"
    by (simp only: encode_def Let_def foldl_encode_digit assms sum.case append_assoc)
  have bits: "set ?enc \<subseteq> {CHR ''0'', CHR ''1''}"
    using bitsL bitsR by simp
  show ?thesis
    using enc bits pattern_layout [OF lenL lenR] by blast
qed

lemma encode_Inr:
  assumes "encode code policy = Inr e"
  shows "length (encoding e) = 95" and "is_code12 (fullCode e)"
proof -
  obtain full where n: "normalizeInput code policy = Inr full"
    using assms by (auto simp: encode_def split: sum.splits)
  then obtain enc where "encode code policy = Inr \<lparr>encoding = enc, fullCode = full\<rparr>"
      and "length enc = 95"
    using encode_shape by blast
  then show "length (encoding e) = 95" and "is_code12 (fullCode e)"
    using assms n normalizeInput_is_code12 by auto
qed

text \<open>
  Claim C2. Whenever normalization succeeds, \<open>encode\<close> returns a pattern (the field
  \<open>encoding\<close>) of exactly 95 characters, each \<open>0\<close> or \<open>1\<close>, that starts with \<open>101\<close>, has
  \<open>01010\<close> at the indices 45 to 49 and ends with \<open>101\<close> at the indices 92 to 94.
\<close>

theorem encode_pattern:
  assumes "normalizeInput code policy = Inr full"
  shows "\<exists>enc. encode code policy = Inr \<lparr>encoding = enc, fullCode = full\<rparr>
           \<and> length enc = 95
           \<and> set enc \<subseteq> {CHR ''0'', CHR ''1''}
           \<and> take 3 enc = ''101''
           \<and> take 5 (drop 45 enc) = ''01010''
           \<and> drop 92 enc = ''101''"
  using assms by (rule encode_shape)

theorem encode_pattern_witness:
  "normalizeInput ''01234567890'' None = Inr ''012345678905''
   \<and> encode ''01234567890'' None = Inr \<lparr>encoding =
        ''10100011010011001001001101111010100011011000101010101000010001001001000111010011100101001110101'',
        fullCode = ''012345678905''\<rparr>"
proof -
  have n: "normalizeInput ''01234567890'' None = Inr ''012345678905''" by code_simp
  have e: "encode ''01234567890'' None = Inr \<lparr>encoding =
        ''10100011010011001001001101111010100011011000101010101000010001001001000111010011100101001110101'',
        fullCode = ''012345678905''\<rparr>" by code_simp
  show ?thesis using encode_pattern [OF n] n e by simp
qed


section \<open>Geometry of the two renderers\<close>

text \<open>
  Claim C8. Whenever encoding succeeds, \<open>render\<close> and \<open>renderSVG\<close> give their targets the
  same width and the same height: the width is the outer digit space, the quiet zone, 95
  modules, the quiet zone and the outer digit space again, plus the left and right padding;
  the height is the guard height (\<open>height + guardExtend\<close> for the style \<open>notched\<close>, \<open>height\<close>
  otherwise) plus the font size, the text margin and the top and bottom padding.
\<close>

theorem renderers_same_size:
  assumes "encode code (checksum opts) = Inr e"
  shows "\<exists>cv' sv'.
           render (Some cv) code opts = Inr cv' \<and> renderSVG (Some sv) code opts = Inr sv'
         \<and> canvas_width cv' = svg_width sv' \<and> canvas_height cv' = svg_height sv'
         \<and> canvas_width cv' =
             (smallDigitFontSize opts * 0.7 + outerDigitGap opts)
             + quietZone opts * moduleWidth opts + 95 * moduleWidth opts
             + quietZone opts * moduleWidth opts
             + (smallDigitFontSize opts * 0.7 + outerDigitGap opts)
             + paddingLeft opts + paddingRight opts
         \<and> canvas_height cv' =
             (if style opts = ''notched'' then height opts + guardExtend opts else height opts)
             + fontSize opts + textMargin opts + paddingTop opts + paddingBottom opts"
  using assms encode_Inr(1) [OF assms]
  by (simp add: render_def renderSVG_def Let_def)

theorem renderers_same_size_witness:
  "encode ''01234567890'' (checksum DEFAULTS) = Inr \<lparr>encoding =
        ''10100011010011001001001101111010100011011000101010101000010001001001000111010011100101001110101'',
        fullCode = ''012345678905''\<rparr>
   \<and> (\<exists>cv' sv'.
         render (Some \<lparr>canvas_width = 300, canvas_height = 150, calls = []\<rparr>)
           ''01234567890'' DEFAULTS = Inr cv'
       \<and> renderSVG (Some \<lparr>xmlns = [], svg_width = 0, svg_height = 0, viewBox = (0, 0, 0, 0),
                           children = []\<rparr>) ''01234567890'' DEFAULTS = Inr sv'
       \<and> canvas_width cv' = 244 \<and> svg_width sv' = 244
       \<and> canvas_height cv' = 96 \<and> svg_height sv' = 96)"
proof -
  have c: "checksum DEFAULTS = Some ''auto''" by (simp add: DEFAULTS_def)
  have e: "encode ''01234567890'' (checksum DEFAULTS) = Inr \<lparr>encoding =
        ''10100011010011001001001101111010100011011000101010101000010001001001000111010011100101001110101'',
        fullCode = ''012345678905''\<rparr>"
    unfolding c by code_simp
  show ?thesis
    using renderers_same_size [OF e,
        of "\<lparr>canvas_width = 300, canvas_height = 150, calls = []\<rparr>"
           "\<lparr>xmlns = [], svg_width = 0, svg_height = 0, viewBox = (0, 0, 0, 0), children = []\<rparr>"] e
    by (auto simp: DEFAULTS_def)
qed


section \<open>Heights of the bars\<close>

lemma render_bars_closed:
  "n \<le> length enc \<Longrightarrow>
   render_bars opts enc gh y (x0 + real k * moduleWidth opts) [k..<n]
     = map (\<lambda>i. FillRect (foreground opts) (x0 + real i * moduleWidth opts) y (moduleWidth opts)
                   (if style opts = ''notched'' \<and> isGuard i then gh else height opts))
           (filter (\<lambda>i. enc ! i = CHR ''1'') [k..<n])"
proof (induction "n - k" arbitrary: k)
  case 0
  then show ?case by simp
next
  case (Suc m)
  then have k: "k < n" and m: "m = n - Suc k" by simp_all
  have step: "x0 + real k * moduleWidth opts + moduleWidth opts = x0 + real (Suc k) * moduleWidth opts"
    by (simp add: algebra_simps)
  have at: "char_at enc k = Some (enc ! k)"
    using k Suc.prems by (simp add: char_at_def)
  show ?case
    using Suc.hyps(1) [OF m Suc.prems] k
    by (simp add: upt_conv_Cons [OF k] step at Let_def del: of_nat_Suc)
qed

lemma renderSVG_bars_closed:
  "n \<le> length enc \<Longrightarrow>
   renderSVG_bars opts enc gh y (x0 + real k * moduleWidth opts) [k..<n]
     = map (\<lambda>i. Rect (Some (x0 + real i * moduleWidth opts)) (Some y) (moduleWidth opts)
                   (if style opts = ''notched'' \<and> isGuard i then gh else height opts)
                   (foreground opts))
           (filter (\<lambda>i. enc ! i = CHR ''1'') [k..<n])"
proof (induction "n - k" arbitrary: k)
  case 0
  then show ?case by simp
next
  case (Suc m)
  then have k: "k < n" and m: "m = n - Suc k" by simp_all
  have step: "x0 + real k * moduleWidth opts + moduleWidth opts = x0 + real (Suc k) * moduleWidth opts"
    by (simp add: algebra_simps)
  have at: "char_at enc k = Some (enc ! k)"
    using k Suc.prems by (simp add: char_at_def)
  show ?case
    using Suc.hyps(1) [OF m Suc.prems] k
    by (simp add: upt_conv_Cons [OF k] step at Let_def del: of_nat_Suc)
qed

lemma render_text_no_rect: "FillRect c x y w h \<notin> set (render_text opts full n bx ty)"
  by (auto simp: render_text_def Let_def)

lemma renderSVG_text_no_rect: "Rect x y w h f \<notin> set (renderSVG_text opts full n bx oy)"
  by (auto simp: renderSVG_text_def Let_def)

text \<open>On the 95 modules, the test the renderers make is membership in the three guard regions.\<close>

lemma isGuard_guard_modules: "i < 95 \<Longrightarrow> isGuard i \<longleftrightarrow> i \<in> set guard_modules"
  unfolding isGuard_def guard_modules_def by (simp, arith)

text \<open>
  Claim C9. In both renderers the rectangles after the background are the modules whose bit
  is \<open>1\<close>, from left to right, followed by the digits. With the style \<open>notched\<close> a drawn
  module whose index is one of 0-2, 45-49, 92-94 has the height \<open>height + guardExtend\<close>
  and every other drawn module the height \<open>height\<close>; with any other style, \<open>flat\<close> among
  them, every drawn module has the height \<open>height\<close>.
\<close>

theorem bar_heights:
  fixes opts :: options and e :: encoded
  defines "startX \<equiv> paddingLeft opts + (smallDigitFontSize opts * 0.7 + outerDigitGap opts)
                       + quietZone opts * moduleWidth opts"
    and "barHeight \<equiv> \<lambda>i. if style opts = ''notched'' \<and> i \<in> set guard_modules
                            then height opts + guardExtend opts else height opts"
    and "drawn \<equiv> filter (\<lambda>i. encoding e ! i = CHR ''1'') [0..<95]"
  assumes "encode code (checksum opts) = Inr e"
  shows "\<exists>cv' sv'.
           render (Some cv) code opts = Inr cv' \<and> renderSVG (Some sv) code opts = Inr sv'
         \<and> calls cv' =
             FillRect (background opts) 0 0 (canvas_width cv') (canvas_height cv')
             # map (\<lambda>i. FillRect (foreground opts) (startX + real i * moduleWidth opts)
                          (paddingTop opts) (moduleWidth opts) (barHeight i)) drawn
             @ render_text opts (fullCode e) 95 startX
                 (paddingTop opts + height opts + textMargin opts)
         \<and> children sv' =
             Rect None None (svg_width sv') (svg_height sv') (background opts)
             # map (\<lambda>i. Rect (Some (startX + real i * moduleWidth opts)) (Some (paddingTop opts))
                          (moduleWidth opts) (barHeight i) (foreground opts)) drawn
             @ renderSVG_text opts (fullCode e) 95 startX (paddingTop opts)
         \<and> (style opts \<noteq> ''notched'' \<longrightarrow>
               (\<forall>c x y w h. FillRect c x y w h \<in> set (tl (calls cv')) \<longrightarrow> h = height opts)
             \<and> (\<forall>x y w h f. Rect x y w h f \<in> set (tl (children sv')) \<longrightarrow> h = height opts))"
proof -
  let ?gh = "if style opts = ''notched'' then height opts + guardExtend opts else height opts"
  have len: "length (encoding e) = 95"
    using assms(4) by (rule encode_Inr(1))
  have in_range: "i < 95" if "i \<in> set drawn" for i
    using that by (simp add: drawn_def)
  have gh: "(if style opts = ''notched'' \<and> isGuard i then ?gh else height opts) = barHeight i"
    if "i \<in> set drawn" for i
    using isGuard_guard_modules [OF in_range [OF that]] by (simp add: barHeight_def)
  have bars: "render_bars opts (encoding e) ?gh (paddingTop opts) startX [0..<95]
      = map (\<lambda>i. FillRect (foreground opts) (startX + real i * moduleWidth opts)
                   (paddingTop opts) (moduleWidth opts) (barHeight i)) drawn"
  proof -
    have "render_bars opts (encoding e) ?gh (paddingTop opts) startX [0..<95]
        = map (\<lambda>i. FillRect (foreground opts) (startX + real i * moduleWidth opts)
                     (paddingTop opts) (moduleWidth opts)
                     (if style opts = ''notched'' \<and> isGuard i then ?gh else height opts)) drawn"
      using render_bars_closed [of 95 "encoding e" opts ?gh "paddingTop opts" startX 0] len
      by (simp only: drawn_def) simp
    also have "\<dots> = map (\<lambda>i. FillRect (foreground opts) (startX + real i * moduleWidth opts)
                     (paddingTop opts) (moduleWidth opts) (barHeight i)) drawn"
      by (rule map_cong) (simp_all only: gh)
    finally show ?thesis .
  qed
  have sbars: "renderSVG_bars opts (encoding e) ?gh (paddingTop opts) startX [0..<95]
      = map (\<lambda>i. Rect (Some (startX + real i * moduleWidth opts)) (Some (paddingTop opts))
                   (moduleWidth opts) (barHeight i) (foreground opts)) drawn"
  proof -
    have "renderSVG_bars opts (encoding e) ?gh (paddingTop opts) startX [0..<95]
        = map (\<lambda>i. Rect (Some (startX + real i * moduleWidth opts)) (Some (paddingTop opts))
                     (moduleWidth opts)
                     (if style opts = ''notched'' \<and> isGuard i then ?gh else height opts)
                     (foreground opts)) drawn"
      using renderSVG_bars_closed [of 95 "encoding e" opts ?gh "paddingTop opts" startX 0] len
      by (simp only: drawn_def) simp
    also have "\<dots> = map (\<lambda>i. Rect (Some (startX + real i * moduleWidth opts))
                     (Some (paddingTop opts)) (moduleWidth opts) (barHeight i) (foreground opts)) drawn"
      by (rule map_cong) (simp_all only: gh)
    finally show ?thesis .
  qed
  define W where "W = (smallDigitFontSize opts * 0.7 + outerDigitGap opts)
      + quietZone opts * moduleWidth opts + real (length (encoding e)) * moduleWidth opts
      + quietZone opts * moduleWidth opts + (smallDigitFontSize opts * 0.7 + outerDigitGap opts)
      + paddingLeft opts + paddingRight opts"
  define H where "H = ?gh + fontSize opts + textMargin opts + paddingTop opts + paddingBottom opts"
  define raster where "raster = FillRect (background opts) 0 0 W H
      # render_bars opts (encoding e) ?gh (paddingTop opts) startX [0..<length (encoding e)]
      @ render_text opts (fullCode e) (length (encoding e)) startX
          (paddingTop opts + height opts + textMargin opts)"
  define vector where "vector = Rect None None W H (background opts)
      # renderSVG_bars opts (encoding e) ?gh (paddingTop opts) startX [0..<length (encoding e)]
      @ renderSVG_text opts (fullCode e) (length (encoding e)) startX (paddingTop opts)"
  have r: "render (Some cv) code opts
      = Inr (cv\<lparr>canvas_width := W, canvas_height := H, calls := raster\<rparr>)"
    by (simp add: render_def Let_def assms(4) W_def H_def startX_def raster_def)
  have v: "renderSVG (Some sv) code opts
      = Inr (sv\<lparr>xmlns := SVG_NS, svg_width := W, svg_height := H, viewBox := (0, 0, W, H),
               children := vector\<rparr>)"
    by (simp add: renderSVG_def Let_def assms(4) W_def H_def startX_def vector_def)
  have raster: "raster = FillRect (background opts) 0 0 W H
      # map (\<lambda>i. FillRect (foreground opts) (startX + real i * moduleWidth opts)
                   (paddingTop opts) (moduleWidth opts) (barHeight i)) drawn
      @ render_text opts (fullCode e) 95 startX (paddingTop opts + height opts + textMargin opts)"
    unfolding raster_def len bars ..
  have vector: "vector = Rect None None W H (background opts)
      # map (\<lambda>i. Rect (Some (startX + real i * moduleWidth opts)) (Some (paddingTop opts))
                   (moduleWidth opts) (barHeight i) (foreground opts)) drawn
      @ renderSVG_text opts (fullCode e) 95 startX (paddingTop opts)"
    unfolding vector_def len sbars ..
  have flat_r: "h = height opts"
    if "style opts \<noteq> ''notched''" and "FillRect c x y w h \<in> set (tl raster)" for c x y w h
    using that render_text_no_rect by (auto simp: raster barHeight_def)
  have flat_v: "h = height opts"
    if "style opts \<noteq> ''notched''" and "Rect x y w h f \<in> set (tl vector)" for x y w h f
    using that renderSVG_text_no_rect by (auto simp: vector barHeight_def)
  let ?cv = "cv\<lparr>canvas_width := W, canvas_height := H, calls := raster\<rparr>"
  let ?sv = "sv\<lparr>xmlns := SVG_NS, svg_width := W, svg_height := H, viewBox := (0, 0, W, H),
               children := vector\<rparr>"
  have flat: "style opts \<noteq> ''notched'' \<longrightarrow>
      (\<forall>c x y w h. FillRect c x y w h \<in> set (tl (calls ?cv)) \<longrightarrow> h = height opts)
    \<and> (\<forall>x y w h f. Rect x y w h f \<in> set (tl (children ?sv)) \<longrightarrow> h = height opts)"
    using flat_r flat_v by simp
  have shape_r: "calls ?cv =
      FillRect (background opts) 0 0 (canvas_width ?cv) (canvas_height ?cv)
      # map (\<lambda>i. FillRect (foreground opts) (startX + real i * moduleWidth opts)
                   (paddingTop opts) (moduleWidth opts) (barHeight i)) drawn
      @ render_text opts (fullCode e) 95 startX (paddingTop opts + height opts + textMargin opts)"
    using raster by simp
  have shape_v: "children ?sv =
      Rect None None (svg_width ?sv) (svg_height ?sv) (background opts)
      # map (\<lambda>i. Rect (Some (startX + real i * moduleWidth opts)) (Some (paddingTop opts))
                   (moduleWidth opts) (barHeight i) (foreground opts)) drawn
      @ renderSVG_text opts (fullCode e) 95 startX (paddingTop opts)"
    using vector by simp
  show ?thesis
    using r v shape_r shape_v flat by blast
qed



theorem bar_heights_witness:
  "encode ''01234567890'' (checksum DEFAULTS) = Inr \<lparr>encoding =
        ''10100011010011001001001101111010100011011000101010101000010001001001000111010011100101001110101'',
        fullCode = ''012345678905''\<rparr>
   \<and> (\<exists>cv' sv'.
         render (Some \<lparr>canvas_width = 300, canvas_height = 150, calls = []\<rparr>)
           ''01234567890'' DEFAULTS = Inr cv'
       \<and> renderSVG (Some \<lparr>xmlns = [], svg_width = 0, svg_height = 0, viewBox = (0, 0, 0, 0),
                           children = []\<rparr>) ''01234567890'' DEFAULTS = Inr sv'
       \<and> map (\<lambda>k. tl (calls cv') ! k) [0, 1, 2, 21, 22, 23, 24, 41, 42, 43] =
            [FillRect ''#000000'' 27 0 2 80, FillRect ''#000000'' 31 0 2 80,
             FillRect ''#000000'' 39 0 2 70, FillRect ''#000000'' 115 0 2 70,
             FillRect ''#000000'' 119 0 2 80, FillRect ''#000000'' 123 0 2 80,
             FillRect ''#000000'' 127 0 2 70, FillRect ''#000000'' 207 0 2 70,
             FillRect ''#000000'' 211 0 2 80, FillRect ''#000000'' 215 0 2 80]
       \<and> map (\<lambda>k. tl (children sv') ! k) [0, 1, 2, 21, 22, 23, 24, 41, 42, 43] =
            [Rect (Some 27) (Some 0) 2 80 ''#000000'', Rect (Some 31) (Some 0) 2 80 ''#000000'',
             Rect (Some 39) (Some 0) 2 70 ''#000000'', Rect (Some 115) (Some 0) 2 70 ''#000000'',
             Rect (Some 119) (Some 0) 2 80 ''#000000'', Rect (Some 123) (Some 0) 2 80 ''#000000'',
             Rect (Some 127) (Some 0) 2 70 ''#000000'', Rect (Some 207) (Some 0) 2 70 ''#000000'',
             Rect (Some 211) (Some 0) 2 80 ''#000000'', Rect (Some 215) (Some 0) 2 80 ''#000000''])
   \<and> (\<exists>cv' sv'.
         render (Some \<lparr>canvas_width = 300, canvas_height = 150, calls = []\<rparr>)
           ''01234567890'' (DEFAULTS\<lparr>style := ''flat''\<rparr>) = Inr cv'
       \<and> renderSVG (Some \<lparr>xmlns = [], svg_width = 0, svg_height = 0, viewBox = (0, 0, 0, 0),
                           children = []\<rparr>) ''01234567890'' (DEFAULTS\<lparr>style := ''flat''\<rparr>) = Inr sv'
       \<and> (\<forall>c x y w h. FillRect c x y w h \<in> set (tl (calls cv')) \<longrightarrow> h = 70)
       \<and> (\<forall>x y w h f. Rect x y w h f \<in> set (tl (children sv')) \<longrightarrow> h = 70))"
proof -
  let ?E = "\<lparr>encoding =
        ''10100011010011001001001101111010100011011000101010101000010001001001000111010011100101001110101'',
        fullCode = ''012345678905''\<rparr>"
  let ?cv = "\<lparr>canvas_width = 300, canvas_height = 150, calls = []\<rparr>"
  let ?sv = "\<lparr>xmlns = [], svg_width = 0, svg_height = 0, viewBox = (0, 0, 0, 0), children = []\<rparr>"
  have e0: "encode ''01234567890'' (Some ''auto'') = Inr ?E"
    by code_simp
  have e: "encode ''01234567890'' (checksum DEFAULTS) = Inr ?E"
    and f: "encode ''01234567890'' (checksum (DEFAULTS\<lparr>style := ''flat''\<rparr>)) = Inr ?E"
    using e0 by (simp_all add: DEFAULTS_def)
  have d: "filter (\<lambda>i. encoding ?E ! i = CHR ''1'') [0..<95] =
      [0, 2, 6, 7, 9, 12, 13, 16, 19, 22, 23, 25, 26, 27, 28, 30, 32, 36, 37, 39,
       40, 44, 46, 48, 50, 52, 57, 61, 64, 67, 71, 72, 73, 75, 78, 79, 80, 83,
       85, 88, 89, 90, 92, 94]"
    by code_simp
  have notched: "\<exists>cv' sv'.
         render (Some ?cv) ''01234567890'' DEFAULTS = Inr cv'
       \<and> renderSVG (Some ?sv) ''01234567890'' DEFAULTS = Inr sv'
       \<and> map (\<lambda>k. tl (calls cv') ! k) [0, 1, 2, 21, 22, 23, 24, 41, 42, 43] =
            [FillRect ''#000000'' 27 0 2 80, FillRect ''#000000'' 31 0 2 80,
             FillRect ''#000000'' 39 0 2 70, FillRect ''#000000'' 115 0 2 70,
             FillRect ''#000000'' 119 0 2 80, FillRect ''#000000'' 123 0 2 80,
             FillRect ''#000000'' 127 0 2 70, FillRect ''#000000'' 207 0 2 70,
             FillRect ''#000000'' 211 0 2 80, FillRect ''#000000'' 215 0 2 80]
       \<and> map (\<lambda>k. tl (children sv') ! k) [0, 1, 2, 21, 22, 23, 24, 41, 42, 43] =
            [Rect (Some 27) (Some 0) 2 80 ''#000000'', Rect (Some 31) (Some 0) 2 80 ''#000000'',
             Rect (Some 39) (Some 0) 2 70 ''#000000'', Rect (Some 115) (Some 0) 2 70 ''#000000'',
             Rect (Some 119) (Some 0) 2 80 ''#000000'', Rect (Some 123) (Some 0) 2 80 ''#000000'',
             Rect (Some 127) (Some 0) 2 70 ''#000000'', Rect (Some 207) (Some 0) 2 70 ''#000000'',
             Rect (Some 211) (Some 0) 2 80 ''#000000'', Rect (Some 215) (Some 0) 2 80 ''#000000'']"
    using bar_heights [OF e, of ?cv ?sv] unfolding d
    by (auto simp: DEFAULTS_def guard_modules_def)
  have flat: "\<exists>cv' sv'.
         render (Some ?cv) ''01234567890'' (DEFAULTS\<lparr>style := ''flat''\<rparr>) = Inr cv'
       \<and> renderSVG (Some ?sv) ''01234567890'' (DEFAULTS\<lparr>style := ''flat''\<rparr>) = Inr sv'
       \<and> (\<forall>c x y w h. FillRect c x y w h \<in> set (tl (calls cv')) \<longrightarrow> h = 70)
       \<and> (\<forall>x y w h f. Rect x y w h f \<in> set (tl (children sv')) \<longrightarrow> h = 70)"
  proof -
    have s: "style (DEFAULTS\<lparr>style := ''flat''\<rparr>) \<noteq> ''notched''"
      and h: "height (DEFAULTS\<lparr>style := ''flat''\<rparr>) = 70"
      by (simp_all add: DEFAULTS_def)
    from bar_heights [OF f, of ?cv ?sv] s h show ?thesis
      by metis
  qed
  show ?thesis
    using e notched flat by blast
qed

end
